theory Spec2Isabelle
  imports Complex_Main
begin

section \<open>JavaScript numbers\<close>

text \<open>
  The upload manager computes with JavaScript numbers. A number is modelled as a finite
  value, one of the two infinities, or NaN. \<open>parseFloat\<close> rounds the decimal value
  it reads to the nearest double. In the arithmetic of the statistics and of the analysis
  finite doubles are idealised as reals: the rounding of an operation is not modelled
  there. The sign of zero is not modelled (every zero divisor in the code below is a
  length, hence \<open>+0\<close>). What the code does with NaN and the infinities is written out.
\<close>

datatype jsnum = Fin real | PInf | NInf | NaN

fun jadd :: "jsnum \<Rightarrow> jsnum \<Rightarrow> jsnum" where
  "jadd NaN _ = NaN"
| "jadd _ NaN = NaN"
| "jadd (Fin a) (Fin b) = Fin (a + b)"
| "jadd PInf NInf = NaN"
| "jadd NInf PInf = NaN"
| "jadd PInf _ = PInf"
| "jadd _ PInf = PInf"
| "jadd NInf _ = NInf"
| "jadd _ NInf = NInf"

fun jneg :: "jsnum \<Rightarrow> jsnum" where
  "jneg (Fin a) = Fin (- a)"
| "jneg PInf = NInf"
| "jneg NInf = PInf"
| "jneg NaN = NaN"

definition jsub :: "jsnum \<Rightarrow> jsnum \<Rightarrow> jsnum" where
  "jsub a b = jadd a (jneg b)"

text \<open>Division \<open>a / b\<close>; a zero divisor is \<open>+0\<close>.\<close>

fun jdiv :: "jsnum \<Rightarrow> jsnum \<Rightarrow> jsnum" where
  "jdiv NaN _ = NaN"
| "jdiv _ NaN = NaN"
| "jdiv (Fin a) (Fin b) =
     (if b \<noteq> 0 then Fin (a / b)
      else if a = 0 then NaN else if 0 < a then PInf else NInf)"
| "jdiv (Fin a) PInf = Fin 0"
| "jdiv (Fin a) NInf = Fin 0"
| "jdiv PInf (Fin b) = (if 0 \<le> b then PInf else NInf)"
| "jdiv NInf (Fin b) = (if 0 \<le> b then NInf else PInf)"
| "jdiv _ _ = NaN"

text \<open>\<open>Math.pow(x, 2)\<close> and \<open>Math.sqrt(x)\<close>.\<close>

fun Math_pow2 :: "jsnum \<Rightarrow> jsnum" where
  "Math_pow2 (Fin a) = Fin (a ^ 2)"
| "Math_pow2 PInf = PInf"
| "Math_pow2 NInf = PInf"
| "Math_pow2 NaN = NaN"

fun Math_sqrt :: "jsnum \<Rightarrow> jsnum" where
  "Math_sqrt (Fin a) = (if a < 0 then NaN else Fin (sqrt a))"
| "Math_sqrt PInf = PInf"
| "Math_sqrt NInf = NaN"
| "Math_sqrt NaN = NaN"

text \<open>\<open>x > 0\<close> on a number (false for NaN).\<close>

fun jpos :: "jsnum \<Rightarrow> bool" where
  "jpos (Fin a) = (0 < a)"
| "jpos PInf = True"
| "jpos NInf = False"
| "jpos NaN = False"

text \<open>
  \<open>Math.min(...xs)\<close> and \<open>Math.max(...xs)\<close>: NaN as soon as one argument is NaN,
  \<open>Infinity\<close> and \<open>-Infinity\<close> for no argument.
\<close>

fun jmin2 :: "jsnum \<Rightarrow> jsnum \<Rightarrow> jsnum" where
  "jmin2 NaN _ = NaN"
| "jmin2 _ NaN = NaN"
| "jmin2 a b = (if jpos (jsub a b) then b else a)"

fun jmax2 :: "jsnum \<Rightarrow> jsnum \<Rightarrow> jsnum" where
  "jmax2 NaN _ = NaN"
| "jmax2 _ NaN = NaN"
| "jmax2 a b = (if jpos (jsub b a) then b else a)"

definition Math_min :: "jsnum list \<Rightarrow> jsnum" where
  "Math_min xs = foldl jmin2 PInf xs"

definition Math_max :: "jsnum list \<Rightarrow> jsnum" where
  "Math_max xs = foldl jmax2 NInf xs"

text \<open>
  \<open>[...values].sort((a, b) => a - b)\<close>: the sort is stable, and a comparator result
  that is NaN counts as \<open>0\<close>. It is modelled as a stable insertion sort that puts an
  element behind every element the comparator does not place after it. On a list that
  holds NaN the comparator is inconsistent and JavaScript leaves the order to the
  implementation; the model fixes the insertion order there.
\<close>

fun sort_insert :: "jsnum \<Rightarrow> jsnum list \<Rightarrow> jsnum list" where
  "sort_insert x [] = [x]"
| "sort_insert x (y # ys) = (if jpos (jsub x y) then y # sort_insert x ys else x # y # ys)"

definition js_sort :: "jsnum list \<Rightarrow> jsnum list" where
  "js_sort xs = foldr sort_insert xs []"

section \<open>Strings\<close>

text \<open>
  The white space that \<open>trim\<close> and \<open>parseFloat\<close> skip, among the code units below
  256: tab, line feed, vertical tab, form feed, carriage return, space and no-break space.
\<close>

definition isWhiteSpace :: "char \<Rightarrow> bool" where
  "isWhiteSpace c =
     (c \<in> set [CHR 0x09, CHR 0x0A, CHR 0x0B, CHR 0x0C, CHR 0x0D, CHR 0x20, CHR 0xA0])"

definition trimStart :: "string \<Rightarrow> string" where
  "trimStart s = dropWhile isWhiteSpace s"

definition trim :: "string \<Rightarrow> string" where
  "trim s = rev (dropWhile isWhiteSpace (rev (dropWhile isWhiteSpace s)))"

text \<open>\<open>s.split(sep)\<close> for a separator of one character; the empty string gives \<open>['']\<close>.\<close>

fun split_on :: "char \<Rightarrow> string \<Rightarrow> string list" where
  "split_on sep [] = [[]]"
| "split_on sep (c # cs) =
     (if c = sep then [] # split_on sep cs
      else case split_on sep cs of w # ws \<Rightarrow> (c # w) # ws | [] \<Rightarrow> [[c]])"

definition startsWith :: "string \<Rightarrow> char \<Rightarrow> bool" where
  "startsWith s c = (s \<noteq> [] \<and> hd s = c)"

definition endsWith :: "string \<Rightarrow> char \<Rightarrow> bool" where
  "endsWith s c = (s \<noteq> [] \<and> last s = c)"

text \<open>
  \<open>s.substring(a, b)\<close>: both indices are clamped to the length, and swapped when the
  first is the larger one.
\<close>

definition substring :: "string \<Rightarrow> nat \<Rightarrow> nat \<Rightarrow> string" where
  "substring s a b =
     (let a' = min a (length s); b' = min b (length s);
          lo = min a' b'; hi = max a' b'
      in take (hi - lo) (drop lo s))"

section \<open>parseFloat\<close>

text \<open>
  \<open>parseFloat\<close> skips leading white space and reads the longest prefix that is a
  decimal literal: an optional sign, then \<open>Infinity\<close>, or digits with an optional
  fraction, or a fraction alone, then an exponent when \<open>e\<close> or \<open>E\<close> is followed by an
  optionally signed digit. Without such a prefix the result is NaN. The result is the
  Number value of the decimal value of the prefix.
\<close>

definition isDigit :: "char \<Rightarrow> bool" where
  "isDigit c = (c \<in> set ''0123456789'')"

definition digitValue :: "char \<Rightarrow> nat" where
  "digitValue c = of_char c - 48"

definition digitsValue :: "string \<Rightarrow> int" where
  "digitsValue ds = foldl (\<lambda>a c. 10 * a + int (digitValue c)) 0 ds"

definition signedInteger :: "int \<Rightarrow> string \<Rightarrow> int" where
  "signedInteger sign s = sign * digitsValue (takeWhile isDigit s)"

text \<open>The value of the exponent part a string starts with, \<open>0\<close> when it starts with none.\<close>

definition exponentPart :: "string \<Rightarrow> int" where
  "exponentPart s =
     (case s of
        [] \<Rightarrow> 0
      | e # r \<Rightarrow>
          if e = CHR ''e'' \<or> e = CHR ''E'' then
            (case r of
               [] \<Rightarrow> 0
             | sg # r' \<Rightarrow>
                 if sg = CHR ''+'' then signedInteger 1 r'
                 else if sg = CHR ''-'' then signedInteger (- 1) r'
                 else signedInteger 1 r)
          else 0)"

definition scale10 :: "real \<Rightarrow> int \<Rightarrow> real" where
  "scale10 m e = (if 0 \<le> e then m * 10 ^ nat e else m / 10 ^ nat (- e))"

text \<open>
  The Number value of a mathematical value: the nearest double, a tie going to the even
  significand, and an infinity from \<open>2 ^ 1024 - 2 ^ 970\<close> on. The binary exponent is
  found by halving or doubling at most as often as the exponent range of a double
  allows, which also gives the fixed exponent of the subnormal numbers.
\<close>

definition pow2 :: "int \<Rightarrow> real" where
  "pow2 e = (if 0 \<le> e then 2 ^ nat e else 1 / 2 ^ nat (- e))"

fun halvings :: "nat \<Rightarrow> real \<Rightarrow> int \<Rightarrow> int" where
  "halvings 0 a e = e"
| "halvings (Suc n) a e = (if a < 2 then e else halvings n (a / 2) (e + 1))"

fun doublings :: "nat \<Rightarrow> real \<Rightarrow> int \<Rightarrow> int" where
  "doublings 0 a e = e"
| "doublings (Suc n) a e = (if 1 \<le> a then e else doublings n (a * 2) (e - 1))"

definition binaryExponent :: "real \<Rightarrow> int" where
  "binaryExponent a = (if 1 \<le> a then halvings 1024 a 0 else doublings 1022 a 0)"

definition roundHalfEven :: "real \<Rightarrow> int" where
  "roundHalfEven x =
     (if x - real_of_int \<lfloor>x\<rfloor> < 1 / 2 then \<lfloor>x\<rfloor>
      else if 1 / 2 < x - real_of_int \<lfloor>x\<rfloor> then \<lfloor>x\<rfloor> + 1
      else if even \<lfloor>x\<rfloor> then \<lfloor>x\<rfloor> else \<lfloor>x\<rfloor> + 1)"

definition toNumber :: "real \<Rightarrow> jsnum" where
  "toNumber x =
     (let a = \<bar>x\<bar>;
          ulp = pow2 (binaryExponent a - 52);
          r = real_of_int (roundHalfEven (a / ulp)) * ulp
      in if pow2 1024 \<le> r then (if 0 < x then PInf else NInf)
         else Fin (if 0 \<le> x then r else - r))"

definition unsignedDecimal :: "string \<Rightarrow> jsnum" where
  "unsignedDecimal s =
     (if take 8 s = ''Infinity'' then PInf
      else
        let ip = takeWhile isDigit s; r1 = dropWhile isDigit s
        in if startsWith r1 (CHR ''.'') then
             let fp = takeWhile isDigit (tl r1); r3 = dropWhile isDigit (tl r1)
             in if ip = [] \<and> fp = [] then NaN
                else toNumber (scale10
                                 (real_of_int (digitsValue ip) +
                                  real_of_int (digitsValue fp) / 10 ^ length fp)
                                 (exponentPart r3))
           else if ip = [] then NaN
           else toNumber (scale10 (real_of_int (digitsValue ip)) (exponentPart r1)))"

definition parseFloat :: "string \<Rightarrow> jsnum" where
  "parseFloat s =
     (let t = trimStart s
      in if startsWith t (CHR ''+'') then unsignedDecimal (tl t)
         else if startsWith t (CHR ''-'') then jneg (unsignedDecimal (tl t))
         else unsignedDecimal t)"

text \<open>
  When \<open>parseFloat\<close> finds a numeral, said without reading it: after the leading white
  space and one optional sign, the text begins with \<open>Infinity\<close>, with a digit, or with
  a point that a digit follows. The properties below relate this to \<open>parseFloat\<close>.
\<close>

definition startsNumeral :: "string \<Rightarrow> bool" where
  "startsNumeral u =
     (take 8 u = ''Infinity'' \<or> (u \<noteq> [] \<and> isDigit (hd u)) \<or>
      (2 \<le> length u \<and> hd u = CHR ''.'' \<and> isDigit (u ! 1)))"

definition numericPrefix :: "string \<Rightarrow> bool" where
  "numericPrefix s =
     (let t = trimStart s
      in startsNumeral (if startsWith t (CHR ''+'') \<or> startsWith t (CHR ''-'') then tl t else t))"

text \<open>Text that does not continue a run of digits: no digit, point or exponent letter.\<close>

definition endsNumeral :: "string \<Rightarrow> bool" where
  "endsNumeral rest =
     (rest = [] \<or> (\<not> isDigit (hd rest) \<and> hd rest \<notin> set ''.eE''))"

section \<open>Rows and tables\<close>

text \<open>
  A cell of a parsed row is a number or a string; the analysis adds a boolean flag. A row
  is an object, modelled by the map from the names of its own properties to their values.
  Strings are sequences of code units below 256.
\<close>

datatype jsval = JNum jsnum | JStr string | JBool bool

type_synonym row = "string \<Rightarrow> jsval option"

record table =
  headers :: "string list"
  data :: "row list"
  totalRows :: nat

text \<open>The truth value of a property read in a condition; a missing property is undefined.\<close>

fun truthy :: "jsval option \<Rightarrow> bool" where
  "truthy None = False"
| "truthy (Some (JBool b)) = b"
| "truthy (Some (JStr s)) = (s \<noteq> [])"
| "truthy (Some (JNum (Fin a))) = (a \<noteq> 0)"
| "truthy (Some (JNum NaN)) = False"
| "truthy (Some (JNum _)) = True"

section \<open>The row parser: parseCSV\<close>

text \<open>
  \<open>TypeError\<close> is what the runtime raises when a property of \<open>undefined\<close> is read.
  \<open>ParseError\<close> is the kind that the specification names; no path of the code raises it.
\<close>

datatype error = TypeError | ParseError

text \<open>\<open>values[j] || ''\<close>: an index past the end reads \<open>undefined\<close>.\<close>

definition fieldValue :: "string list \<Rightarrow> nat \<Rightarrow> string" where
  "fieldValue values j = (if j < length values \<and> values ! j \<noteq> [] then values ! j else [])"

definition stripQuotes :: "string \<Rightarrow> string" where
  "stripQuotes value =
     (if startsWith value (CHR 0x22) \<and> endsWith value (CHR 0x22)
      then substring value 1 (length value - 1)
      else value)"

definition toCell :: "string \<Rightarrow> jsval" where
  "toCell value =
     (let numValue = parseFloat value
      in if numValue = NaN then JStr value else JNum numValue)"

definition storedCell :: "string list \<Rightarrow> nat \<Rightarrow> jsval" where
  "storedCell values j = toCell (stripQuotes (fieldValue values j))"

text \<open>
  \<open>entry[name] = v\<close> on an object literal. The name \<open>__proto__\<close> reaches the
  inherited setter, which ignores a number or a string, so no property is created.
\<close>

definition setProperty :: "row \<Rightarrow> string \<Rightarrow> jsval \<Rightarrow> row" where
  "setProperty entry name v = (if name = ''__proto__'' then entry else entry(name \<mapsto> v))"

text \<open>The inner loop over the header positions \<open>0\<close> to \<open>m - 1\<close>, and one data line.\<close>

definition bindFields :: "string list \<Rightarrow> string list \<Rightarrow> nat \<Rightarrow> row" where
  "bindFields hs values m =
     fold (\<lambda>j entry. setProperty entry (hs ! j) (storedCell values j)) [0..<m] Map.empty"

definition parseRow :: "string list \<Rightarrow> string \<Rightarrow> row" where
  "parseRow hs line = bindFields hs (split_on (CHR '','') line) (length hs)"

definition nonBlankLines :: "string \<Rightarrow> string list" where
  "nonBlankLines csvData = filter (\<lambda>line. trim line \<noteq> []) (split_on (CHR 0x0A) csvData)"

definition parseCSV :: "string \<Rightarrow> error + table" where
  "parseCSV csvData =
     (case nonBlankLines csvData of
        [] \<Rightarrow> Inl TypeError
      | first # rest \<Rightarrow>
          let hs = map trim (split_on (CHR '','') first);
              rows = map (parseRow hs) rest
          in Inr \<lparr>headers = hs, data = rows, totalRows = length rows\<rparr>)"

section \<open>Statistics: calculateStats\<close>

record stats =
  min_stat :: jsnum
  max_stat :: jsnum
  mean :: jsnum
  median :: jsnum
  std :: jsnum

definition calculateStats :: "jsnum list \<Rightarrow> stats" where
  "calculateStats values =
     (if values = [] then
        \<lparr>min_stat = Fin 0, max_stat = Fin 0, mean = Fin 0, median = Fin 0, std = Fin 0\<rparr>
      else
        let sorted = js_sort values;
            sum = foldl jadd (Fin 0) sorted;
            mean = jdiv sum (Fin (real (length sorted)));
            squaredDiffs = map (\<lambda>x. Math_pow2 (jsub x mean)) sorted;
            variance = jdiv (foldl jadd (Fin 0) squaredDiffs) (Fin (real (length sorted) - 1));
            std = Math_sqrt variance;
            mid = length sorted div 2;
            median = (if length sorted mod 2 \<noteq> 0 then sorted ! mid
                      else jdiv (jadd (sorted ! (mid - 1)) (sorted ! mid)) (Fin 2))
        in \<lparr>min_stat = Math_min sorted, max_stat = Math_max sorted, mean = mean,
            median = median, std = std\<rparr>)"

section \<open>The random source\<close>

text \<open>
  \<open>Math.random()\<close> is modelled by the sequence of the values that successive calls
  return, together with the number of calls made so far, which every function that draws
  takes and returns. \<open>Math.round\<close> rounds to the nearest integer, a tie towards
  \<open>+Infinity\<close>.
\<close>

type_synonym rng = "nat \<Rightarrow> real"

definition unit_interval :: "rng \<Rightarrow> bool" where
  "unit_interval rnd = (\<forall>k. 0 \<le> rnd k \<and> rnd k < 1)"

definition Math_round :: "real \<Rightarrow> int" where
  "Math_round x = \<lfloor>x + 1 / 2\<rfloor>"

section \<open>Correlations: calculateCorrelations\<close>

record correlation =
  features :: "string list"
  matrix :: "real list list"

text \<open>\<open>Math.round((r * 1.4 - 0.5) * 100) / 100\<close> for a drawn value \<open>r\<close>.\<close>

definition placeholder :: "real \<Rightarrow> real" where
  "placeholder r = real_of_int (Math_round ((r * 1.4 - 0.5) * 100)) / 100"

text \<open>
  The body of the inner loop for the cell \<open>(i, j)\<close>. The row under construction has
  exactly \<open>j\<close> cells when the cell is written, so the assignment to index \<open>j\<close> appends.
  The lower triangle reads \<open>correlationMatrix[j][i]\<close> from a row finished earlier.
\<close>

definition corr_cell :: "rng \<Rightarrow> real list list \<Rightarrow> nat \<Rightarrow> nat \<Rightarrow> real list \<times> nat \<Rightarrow> real list \<times> nat" where
  "corr_cell rnd M i j s =
     (case s of (row, k) \<Rightarrow>
        if i = j then (row @ [1], k)
        else if i < j then
          (row @ [placeholder (rnd k)], Suc k)
        else (row @ [M ! j ! i], k))"

definition corr_row :: "rng \<Rightarrow> real list list \<Rightarrow> nat \<Rightarrow> nat \<Rightarrow> nat \<Rightarrow> real list \<times> nat" where
  "corr_row rnd M n i k = fold (corr_cell rnd M i) [0..<n] ([], k)"

definition corr_step :: "rng \<Rightarrow> nat \<Rightarrow> nat \<Rightarrow> real list list \<times> nat \<Rightarrow> real list list \<times> nat" where
  "corr_step rnd n i s =
     (case s of (M, k) \<Rightarrow> case corr_row rnd M n i k of (row, k') \<Rightarrow> (M @ [row], k'))"

definition corr_rows :: "rng \<Rightarrow> nat \<Rightarrow> nat \<Rightarrow> nat \<Rightarrow> real list list \<times> nat" where
  "corr_rows rnd n m k = fold (corr_step rnd n) [0..<m] ([], k)"

text \<open>
  \<open>calculateCorrelations(features)\<close> reads only \<open>Object.keys(features)\<close>; the model
  takes these names.
\<close>

definition calculateCorrelations :: "rng \<Rightarrow> nat \<Rightarrow> string list \<Rightarrow> correlation \<times> nat" where
  "calculateCorrelations rnd k featureNames =
     (case corr_rows rnd (length featureNames) (length featureNames) k of
        (M, k') \<Rightarrow> (\<lparr>features = featureNames, matrix = M\<rparr>, k'))"

text \<open>
  What the inner loop leaves in the cell \<open>(i, j)\<close>, and what the outer loop keeps true
  of the rows it has finished; both are used in the proofs only.
\<close>

definition cell_spec :: "rng \<Rightarrow> real list list \<Rightarrow> nat \<Rightarrow> nat \<Rightarrow> real \<Rightarrow> bool" where
  "cell_spec rnd M i j v =
     (if i = j then v = 1
      else if i < j then (\<exists>k. v = placeholder (rnd k))
      else v = M ! j ! i)"

definition corr_inv :: "rng \<Rightarrow> nat \<Rightarrow> real list list \<Rightarrow> bool" where
  "corr_inv rnd n M =
     (\<forall>i<length M. length (M ! i) = n \<and> (i < n \<longrightarrow> M ! i ! i = 1) \<and>
        (\<forall>j<i. M ! i ! j = M ! j ! i) \<and>
        (\<forall>j. i < j \<and> j < n \<longrightarrow> (\<exists>k. M ! i ! j = placeholder (rnd k))))"

section \<open>The analysis: analyzeTransactionData\<close>

record confusion =
  truePositives :: int
  falsePositives :: int
  trueNegatives :: int
  falseNegatives :: int

record model_metrics =
  accuracy :: real
  precision :: real
  recall :: real
  f1Score :: real
  confusionMatrix :: confusion

record analysis =
  totalTransactions :: nat
  genuineCount :: nat
  fraudulentCount :: nat
  metrics :: model_metrics
  correlations :: correlation
  processedData :: table

text \<open>\<open>row.Class === 1 || row.Class === '1'\<close>\<close>

definition isClassOne :: "row \<Rightarrow> bool" where
  "isClassOne row = (row ''Class'' = Some (JNum (Fin 1)) \<or> row ''Class'' = Some (JStr ''1''))"

text \<open>The first pass over the rows; the state is \<open>(genuineCount, fraudulentCount)\<close>.\<close>

fun tally :: "bool \<Rightarrow> row list \<Rightarrow> nat \<times> nat \<Rightarrow> nat \<times> nat" where
  "tally hasClass [] c = c"
| "tally hasClass (row # rows) (g, f) =
     tally hasClass rows
       (if hasClass \<and> isClassOne row then (g, Suc f)
        else if hasClass then (Suc g, f)
        else (g, f))"

text \<open>The pass of the branch without a Class column; \<open>r\<close> is the value drawn for the row.\<close>

definition simulate_row :: "nat \<Rightarrow> nat \<Rightarrow> real \<Rightarrow> row \<Rightarrow> row" where
  "simulate_row fraudCount index r row =
     (let row1 = row(''isFraudulent'' \<mapsto> JBool (index < fraudCount))
      in row1(''confidence'' \<mapsto> JNum (Fin (r * 100))))"

fun simulate_rows :: "rng \<Rightarrow> nat \<Rightarrow> nat \<Rightarrow> nat \<Rightarrow> row list \<Rightarrow> row list \<times> nat" where
  "simulate_rows rnd fraudCount index k [] = ([], k)"
| "simulate_rows rnd fraudCount index k (row # rows) =
     (case simulate_rows rnd fraudCount (Suc index) (Suc k) rows of
        (rows', k') \<Rightarrow> (simulate_row fraudCount index (rnd k) row # rows', k'))"

text \<open>The pass of the branch with a Class column.\<close>

definition label_row :: "real \<Rightarrow> row \<Rightarrow> row" where
  "label_row r row =
     (let row1 = row(''isFraudulent'' \<mapsto> JBool (isClassOne row))
      in row1(''confidence'' \<mapsto>
           JNum (Fin (if truthy (row1 ''isFraudulent'') then max 70 (r * 100)
                      else min 30 (r * 100)))))"

fun label_rows :: "rng \<Rightarrow> nat \<Rightarrow> row list \<Rightarrow> row list \<times> nat" where
  "label_rows rnd k [] = ([], k)"
| "label_rows rnd k (row # rows) =
     (case label_rows rnd (Suc k) rows of
        (rows', k') \<Rightarrow> (label_row (rnd k) row # rows', k'))"

text \<open>The keys \<open>V1\<close> to \<open>V28\<close> of the feature object, in the order of their creation.\<close>

definition digit :: "nat \<Rightarrow> char" where
  "digit d = ''0123456789'' ! d"

fun decimal :: "nat \<Rightarrow> string" where
  "decimal n = (if n < 10 then [digit n] else decimal (n div 10) @ [digit (n mod 10)])"

definition vFeatureNames :: "string list" where
  "vFeatureNames = map (\<lambda>i. ''V'' @ decimal i) [1..<29]"

text \<open>
  The result record holds the totals, the metrics, the correlations and the table whose
  rows the function has extended in place. The amount statistics, the contents of the
  feature arrays (which calculateCorrelations does not read) and the formatted sample
  rows are not part of the model.
\<close>

definition analyzeTransactionData :: "rng \<Rightarrow> nat \<Rightarrow> table \<Rightarrow> analysis \<times> nat" where
  "analyzeTransactionData rnd k dat =
     (let rows = data dat;
          hasClass = (''Class'' \<in> set (headers dat));
          totalTransactions = length rows;
          counted = tally hasClass rows (0, 0);
          fraudulentCount =
            (if \<not> hasClass then nat \<lfloor>real (length rows) * 0.2\<rfloor> else snd counted);
          genuineCount =
            (if \<not> hasClass then length rows - fraudulentCount else fst counted);
          labelled =
            (if \<not> hasClass then simulate_rows rnd fraudulentCount 0 k rows
             else label_rows rnd k rows);
          corr = calculateCorrelations rnd (snd labelled) vFeatureNames;
          metrics =
            \<lparr>accuracy = 0.98, precision = 0.96, recall = 0.92, f1Score = 0.94,
             confusionMatrix =
               \<lparr>truePositives = Math_round (real fraudulentCount * 0.92),
                falsePositives = Math_round (real genuineCount * 0.01),
                trueNegatives = Math_round (real genuineCount * 0.99),
                falseNegatives = Math_round (real fraudulentCount * 0.08)\<rparr>\<rparr>
      in (\<lparr>totalTransactions = totalTransactions,
           genuineCount = genuineCount,
           fraudulentCount = fraudulentCount,
           metrics = metrics,
           correlations = fst corr,
           processedData = dat\<lparr>data := fst labelled\<rparr>\<rparr>,
          snd corr))"

section \<open>Sample inputs\<close>

definition sample_rnd :: rng where
  "sample_rnd k = real (k mod 10) / 10"

definition sample_labelled :: table where
  "sample_labelled =
     \<lparr>headers = [''Amount'', ''Class''],
      data = [[''Amount'' \<mapsto> JNum (Fin 100), ''Class'' \<mapsto> JNum (Fin 1)],
              [''Amount'' \<mapsto> JNum (Fin 50), ''Class'' \<mapsto> JStr ''''],
              [''Amount'' \<mapsto> JNum (Fin 75), ''Class'' \<mapsto> JStr ''abc'']],
      totalRows = 3\<rparr>"

definition sample_unlabelled :: table where
  "sample_unlabelled =
     \<lparr>headers = [''Amount''],
      data = replicate 10 [''Amount'' \<mapsto> JNum (Fin 20)],
      totalRows = 10\<rparr>"

definition sample_header_only :: table where
  "sample_header_only = \<lparr>headers = [''Time'', ''Amount'', ''Class''], data = [], totalRows = 0\<rparr>"

definition sample_fifty_genuine :: table where
  "sample_fifty_genuine =
     \<lparr>headers = [''Class''], data = replicate 50 [''Class'' \<mapsto> JNum (Fin 0)], totalRows = 50\<rparr>"

definition sample_csv :: string where
  "sample_csv = ''a,b,c'' @ [CHR 0x0A] @ ''1'' @ [CHR 0x0A] @ ''1,2,3,4'' @ [CHR 0x0A]"

section \<open>Properties of calculateStats\<close>

lemma calculateStats_empty:
  "calculateStats [] =
     \<lparr>min_stat = Fin 0, max_stat = Fin 0, mean = Fin 0, median = Fin 0, std = Fin 0\<rparr>"
  by (simp add: calculateStats_def)

text \<open>
  Claim C3. On the empty list calculateStats returns zero in every field. On a
  one-element list \<open>[x]\<close> it returns \<open>x\<close> as min, max, mean and median, but the
  variance is \<open>0 / 0\<close>, so std is NaN and not \<open>0\<close>: the guard of the function covers
  the empty list only.
\<close>

theorem calculateStats_singleton_std_NaN:
  "calculateStats [Fin x] =
     \<lparr>min_stat = Fin x, max_stat = Fin x, mean = Fin x, median = Fin x, std = NaN\<rparr>"
  by (simp add: calculateStats_def js_sort_def Math_min_def Math_max_def jsub_def Let_def)

section \<open>Properties of the analysis\<close>

lemma sample_rnd_unit: "unit_interval sample_rnd"
  by (simp add: unit_interval_def sample_rnd_def)

lemma tally_counts:
  "tally True rows (g, f) =
     (g + length (filter (\<lambda>r. \<not> isClassOne r) rows), f + length (filter isClassOne rows))"
  by (induction rows arbitrary: g f) auto

lemma tally_no_class: "tally False rows c = c"
  by (induction rows arbitrary: c) (auto split: prod.splits)

lemma label_rows_snd: "snd (label_rows rnd k rows) = k + length rows"
  by (induction rows arbitrary: k) (simp_all add: case_prod_beta)

lemma label_rows_length: "length (fst (label_rows rnd k rows)) = length rows"
  by (induction rows arbitrary: k) (simp_all add: case_prod_beta)

lemma label_rows_nth:
  "i < length rows \<Longrightarrow> fst (label_rows rnd k rows) ! i = label_row (rnd (k + i)) (rows ! i)"
  by (induction rows arbitrary: k i) (simp_all add: case_prod_beta nth_Cons split: nat.splits)

lemma simulate_rows_snd: "snd (simulate_rows rnd fc ix k rows) = k + length rows"
  by (induction rows arbitrary: k ix) (simp_all add: case_prod_beta)

lemma simulate_rows_length: "length (fst (simulate_rows rnd fc ix k rows)) = length rows"
  by (induction rows arbitrary: k ix) (simp_all add: case_prod_beta)

lemma simulate_rows_nth:
  "i < length rows \<Longrightarrow>
   fst (simulate_rows rnd fc ix k rows) ! i = simulate_row fc (ix + i) (rnd (k + i)) (rows ! i)"
  by (induction rows arbitrary: k ix i) (simp_all add: case_prod_beta nth_Cons split: nat.splits)

lemma floor_fifth: "nat \<lfloor>real n * 0.2\<rfloor> = n div 5"
proof -
  have "real n * 0.2 = real n / real 5" by simp
  then have "\<lfloor>real n * 0.2\<rfloor> = int (n div 5)"
    by (simp only: floor_divide_of_nat_eq)
  then show ?thesis by simp
qed

lemma floor_fifth_div: "nat \<lfloor>real n / 5\<rfloor> = n div 5"
  using floor_fifth [of n] by simp

lemma filter_prefix_count:
  assumes "m \<le> length xs" and "\<forall>i<length xs. P (xs ! i) = (i < m)"
  shows "length (filter P xs) = m"
proof -
  have a: "filter P (take m xs) = take m xs"
    using assms by (auto simp: filter_id_conv in_set_conv_nth)
  have b: "filter P (drop m xs) = []"
    using assms by (auto simp: filter_empty_conv in_set_conv_nth)
  have "filter P xs = filter P (take m xs) @ filter P (drop m xs)"
    by (metis append_take_drop_id filter_append)
  then show ?thesis using a b assms(1) by simp
qed

text \<open>
  Claim C10. With a Class column, a row is tallied as fraudulent when its class value is
  the number 1 or the string \<open>1\<close> and as genuine in every other case (an empty or a
  non-numeric class cell too), so the two tallies add up to the number of rows.
\<close>

theorem labeled_tally_total:
  assumes "''Class'' \<in> set (headers dat)"
  shows "fraudulentCount (fst (analyzeTransactionData rnd k dat)) =
           length (filter isClassOne (data dat)) \<and>
         genuineCount (fst (analyzeTransactionData rnd k dat)) =
           length (filter (\<lambda>r. \<not> isClassOne r) (data dat)) \<and>
         totalTransactions (fst (analyzeTransactionData rnd k dat)) = length (data dat) \<and>
         genuineCount (fst (analyzeTransactionData rnd k dat)) +
           fraudulentCount (fst (analyzeTransactionData rnd k dat)) =
           totalTransactions (fst (analyzeTransactionData rnd k dat))"
  using assms sum_length_filter_compl [of isClassOne "data dat"]
  by (simp add: analyzeTransactionData_def Let_def tally_counts)

theorem labeled_tally_total_witness:
  "''Class'' \<in> set (headers sample_labelled) \<and>
   fraudulentCount (fst (analyzeTransactionData sample_rnd 0 sample_labelled)) = 1 \<and>
   genuineCount (fst (analyzeTransactionData sample_rnd 0 sample_labelled)) = 2 \<and>
   totalTransactions (fst (analyzeTransactionData sample_rnd 0 sample_labelled)) = 3"
  using labeled_tally_total [of sample_labelled sample_rnd 0]
  by (simp add: sample_labelled_def isClassOne_def)

text \<open>
  Claim C5. Without a Class column, the rows at the indices below
  \<open>floor (0.2 * rowCount)\<close> (the first ones in source order) are marked fraudulent
  and every other row genuine, so exactly that many rows carry the flag; ten rows give
  two. The confidence of a row is the drawn value times 100, whatever its label, a number
  of \<open>[0, 100]\<close>.
\<close>

theorem unlabeled_first_fifth_fraudulent:
  assumes "''Class'' \<notin> set (headers dat)" and "unit_interval rnd"
  shows "fraudulentCount (fst (analyzeTransactionData rnd k dat)) =
           nat \<lfloor>real (length (data dat)) * 0.2\<rfloor> \<and>
         fraudulentCount (fst (analyzeTransactionData rnd k dat)) = length (data dat) div 5 \<and>
         genuineCount (fst (analyzeTransactionData rnd k dat)) =
           length (data dat) - length (data dat) div 5 \<and>
         length (data (processedData (fst (analyzeTransactionData rnd k dat)))) =
           length (data dat) \<and>
         (\<forall>i<length (data dat).
            (data (processedData (fst (analyzeTransactionData rnd k dat))) ! i) ''isFraudulent'' =
              Some (JBool (i < length (data dat) div 5)) \<and>
            (data (processedData (fst (analyzeTransactionData rnd k dat))) ! i) ''confidence'' =
              Some (JNum (Fin (rnd (k + i) * 100))) \<and>
            0 \<le> rnd (k + i) * 100 \<and> rnd (k + i) * 100 \<le> 100) \<and>
         length (filter (\<lambda>row. truthy (row ''isFraudulent''))
           (data (processedData (fst (analyzeTransactionData rnd k dat))))) =
           length (data dat) div 5 \<and>
         (length (data dat) = 10 \<longrightarrow>
            fraudulentCount (fst (analyzeTransactionData rnd k dat)) = 2)"
proof -
  let ?n = "length (data dat)"
  let ?rows = "fst (simulate_rows rnd (?n div 5) 0 k (data dat))"
  have out: "data (processedData (fst (analyzeTransactionData rnd k dat))) = ?rows"
    using assms(1) by (simp add: analyzeTransactionData_def Let_def floor_fifth_div)
  have fc: "fraudulentCount (fst (analyzeTransactionData rnd k dat)) = ?n div 5"
    using assms(1) by (simp add: analyzeTransactionData_def Let_def floor_fifth_div)
  have gc: "genuineCount (fst (analyzeTransactionData rnd k dat)) = ?n - ?n div 5"
    using assms(1) by (simp add: analyzeTransactionData_def Let_def floor_fifth_div)
  have len: "length ?rows = ?n"
    by (simp add: simulate_rows_length)
  have nth: "?rows ! i = simulate_row (?n div 5) i (rnd (k + i)) (data dat ! i)"
    if "i < ?n" for i
    using that simulate_rows_nth [of i "data dat" rnd "?n div 5" 0 k] by simp
  have flag: "(?rows ! i) ''isFraudulent'' = Some (JBool (i < ?n div 5))" if "i < ?n" for i
    using nth [OF that] by (simp add: simulate_row_def)
  have conf: "(?rows ! i) ''confidence'' = Some (JNum (Fin (rnd (k + i) * 100)))"
    if "i < ?n" for i
    using nth [OF that] by (simp add: simulate_row_def)
  have rng: "0 \<le> rnd (k + i) * 100 \<and> rnd (k + i) * 100 \<le> 100" for i
    using assms(2) by (simp add: unit_interval_def less_imp_le)
  have cnt: "length (filter (\<lambda>row. truthy (row ''isFraudulent'')) ?rows) = ?n div 5"
  proof (rule filter_prefix_count)
    show "?n div 5 \<le> length ?rows" using len by simp
    show "\<forall>i<length ?rows. truthy ((?rows ! i) ''isFraudulent'') = (i < ?n div 5)"
      using flag len by simp
  qed
  show ?thesis
    using fc gc len flag conf rng cnt by (simp add: out floor_fifth_div)
qed

theorem unlabeled_first_fifth_fraudulent_witness:
  "''Class'' \<notin> set (headers sample_unlabelled) \<and> unit_interval sample_rnd \<and>
   length (data sample_unlabelled) = 10 \<and>
   fraudulentCount (fst (analyzeTransactionData sample_rnd 0 sample_unlabelled)) = 2 \<and>
   genuineCount (fst (analyzeTransactionData sample_rnd 0 sample_unlabelled)) = 8 \<and>
   (data (processedData (fst (analyzeTransactionData sample_rnd 0 sample_unlabelled))) ! 1)
      ''isFraudulent'' = Some (JBool True) \<and>
   (data (processedData (fst (analyzeTransactionData sample_rnd 0 sample_unlabelled))) ! 2)
      ''isFraudulent'' = Some (JBool False) \<and>
   (data (processedData (fst (analyzeTransactionData sample_rnd 0 sample_unlabelled))) ! 1)
      ''confidence'' = Some (JNum (Fin 10)) \<and>
   (data (processedData (fst (analyzeTransactionData sample_rnd 0 sample_unlabelled))) ! 9)
      ''confidence'' = Some (JNum (Fin 90))"
proof -
  have h1: "''Class'' \<notin> set (headers sample_unlabelled)"
    by (simp add: sample_unlabelled_def)
  have n: "length (data sample_unlabelled) = 10"
    by (simp add: sample_unlabelled_def)
  show ?thesis
    using unlabeled_first_fifth_fraudulent [OF h1 sample_rnd_unit, of 0] h1 sample_rnd_unit
    by (simp add: n sample_rnd_def)
qed

text \<open>
  Claim C6. With a Class column and a random source in \<open>[0, 1)\<close>, a row resolved
  fraudulent gets a confidence in \<open>[70, 100]\<close> and a row resolved genuine one in
  \<open>[0, 30]\<close>.
\<close>

theorem labeled_confidence_band:
  assumes "''Class'' \<in> set (headers dat)" and "unit_interval rnd"
    and "i < length (data dat)"
  shows "(data (processedData (fst (analyzeTransactionData rnd k dat))) ! i) ''isFraudulent'' =
           Some (JBool (isClassOne (data dat ! i))) \<and>
         (\<exists>c. (data (processedData (fst (analyzeTransactionData rnd k dat))) ! i) ''confidence'' =
                 Some (JNum (Fin c)) \<and>
              (if isClassOne (data dat ! i) then 70 \<le> c \<and> c \<le> 100 else 0 \<le> c \<and> c \<le> 30))"
proof -
  have out: "data (processedData (fst (analyzeTransactionData rnd k dat))) ! i =
             label_row (rnd (k + i)) (data dat ! i)"
    using assms(1,3) by (simp add: analyzeTransactionData_def Let_def label_rows_nth)
  have r: "0 \<le> rnd (k + i) * 100 \<and> rnd (k + i) * 100 \<le> 100"
    using assms(2) by (simp add: unit_interval_def less_imp_le)
  show ?thesis
    using r by (simp add: out label_row_def)
qed

theorem labeled_confidence_band_witness:
  "''Class'' \<in> set (headers sample_labelled) \<and> unit_interval sample_rnd \<and>
   (data (processedData (fst (analyzeTransactionData sample_rnd 0 sample_labelled))) ! 0)
      ''isFraudulent'' = Some (JBool True) \<and>
   (\<exists>c. (data (processedData (fst (analyzeTransactionData sample_rnd 0 sample_labelled))) ! 0)
      ''confidence'' = Some (JNum (Fin c)) \<and> 70 \<le> c \<and> c \<le> 100)"
proof -
  have h1: "''Class'' \<in> set (headers sample_labelled)"
    by (simp add: sample_labelled_def)
  have h3: "0 < length (data sample_labelled)"
    by (simp add: sample_labelled_def)
  have c: "isClassOne (data sample_labelled ! 0)"
    by (simp add: sample_labelled_def isClassOne_def)
  show ?thesis
    using labeled_confidence_band [OF h1 sample_rnd_unit h3, of 0] h1 sample_rnd_unit c
    by simp
qed

section \<open>Properties of the metrics\<close>

text \<open>
  Claim C1, as the code has it. The four rates of a run are the constants 0.98, 0.96, 0.92
  and 0.94, whatever the table and the confusion counts are; each lies in \<open>[0, 1]\<close>.
  They are not computed from the confusion counts.
\<close>

theorem metrics_are_constants:
  "accuracy (metrics (fst (analyzeTransactionData rnd k dat))) = 0.98 \<and>
   precision (metrics (fst (analyzeTransactionData rnd k dat))) = 0.96 \<and>
   recall (metrics (fst (analyzeTransactionData rnd k dat))) = 0.92 \<and>
   f1Score (metrics (fst (analyzeTransactionData rnd k dat))) = 0.94 \<and>
   0 \<le> accuracy (metrics (fst (analyzeTransactionData rnd k dat))) \<and>
   accuracy (metrics (fst (analyzeTransactionData rnd k dat))) \<le> 1 \<and>
   0 \<le> precision (metrics (fst (analyzeTransactionData rnd k dat))) \<and>
   precision (metrics (fst (analyzeTransactionData rnd k dat))) \<le> 1 \<and>
   0 \<le> recall (metrics (fst (analyzeTransactionData rnd k dat))) \<and>
   recall (metrics (fst (analyzeTransactionData rnd k dat))) \<le> 1 \<and>
   0 \<le> f1Score (metrics (fst (analyzeTransactionData rnd k dat))) \<and>
   f1Score (metrics (fst (analyzeTransactionData rnd k dat))) \<le> 1"
  by (simp add: analyzeTransactionData_def Let_def)

text \<open>
  Claim C1 as stated fails: for a table with a header and no row the total and the
  denominator \<open>TP + FP\<close> are zero, and accuracy and precision are not.
\<close>

theorem metrics_formula_counterexample:
  "totalTransactions (fst (analyzeTransactionData sample_rnd 0 sample_header_only)) = 0 \<and>
   accuracy (metrics (fst (analyzeTransactionData sample_rnd 0 sample_header_only))) \<noteq> 0 \<and>
   truePositives (confusionMatrix (metrics (fst (analyzeTransactionData sample_rnd 0 sample_header_only)))) +
   falsePositives (confusionMatrix (metrics (fst (analyzeTransactionData sample_rnd 0 sample_header_only)))) = 0 \<and>
   precision (metrics (fst (analyzeTransactionData sample_rnd 0 sample_header_only))) \<noteq> 0"
  by (simp add: analyzeTransactionData_def Let_def sample_header_only_def Math_round_def)

text \<open>
  Claim C2. The four confusion counts are rounded separately. For fifty genuine rows
  \<open>Math.round(50 * 0.99)\<close> is 50 and \<open>Math.round(50 * 0.01)\<close> is 1, so
  the true negatives and the false positives add up to 51, one more than the genuine count.
\<close>

theorem confusion_partition_fails_at_50:
  "genuineCount (fst (analyzeTransactionData sample_rnd 0 sample_fifty_genuine)) = 50 \<and>
   trueNegatives (confusionMatrix (metrics (fst (analyzeTransactionData sample_rnd 0 sample_fifty_genuine)))) = 50 \<and>
   falsePositives (confusionMatrix (metrics (fst (analyzeTransactionData sample_rnd 0 sample_fifty_genuine)))) = 1 \<and>
   trueNegatives (confusionMatrix (metrics (fst (analyzeTransactionData sample_rnd 0 sample_fifty_genuine)))) +
   falsePositives (confusionMatrix (metrics (fst (analyzeTransactionData sample_rnd 0 sample_fifty_genuine)))) \<noteq>
   int (genuineCount (fst (analyzeTransactionData sample_rnd 0 sample_fifty_genuine)))"
  by (simp add: analyzeTransactionData_def Let_def sample_fifty_genuine_def tally_counts
      isClassOne_def Math_round_def)

text \<open>
  The other half of the partition holds for every run: 0.92 and 0.08 of a count never end
  in one half, so the true positives and the false negatives add up to the fraudulent
  count. All four counts are non-negative.
\<close>

lemma confusion_nonneg:
  "0 \<le> truePositives (confusionMatrix (metrics (fst (analyzeTransactionData rnd k dat)))) \<and>
   0 \<le> falsePositives (confusionMatrix (metrics (fst (analyzeTransactionData rnd k dat)))) \<and>
   0 \<le> trueNegatives (confusionMatrix (metrics (fst (analyzeTransactionData rnd k dat)))) \<and>
   0 \<le> falseNegatives (confusionMatrix (metrics (fst (analyzeTransactionData rnd k dat))))"
  by (simp add: analyzeTransactionData_def Let_def Math_round_def)

lemma div_complement: "(92 * (n::int) + 50) div 100 + (8 * n + 50) div 100 = n"
proof -
  define a where "a = (92 * n + 50) div 100"
  define b where "b = (8 * n + 50) div 100"
  have a1: "100 * a \<le> 92 * n + 50" and a2: "92 * n + 50 < 100 * a + 100"
    unfolding a_def by linarith+
  have b1: "100 * b \<le> 8 * n + 50" and b2: "8 * n + 50 < 100 * b + 100"
    unfolding b_def by linarith+
  have "(8 * n + 50) mod 4 = 2" by presburger
  moreover have "(100 * b) mod 4 = 0" by presburger
  ultimately have ne: "8 * n + 50 \<noteq> 100 * b" by auto
  have "a + b = n" using a1 a2 b1 b2 ne by linarith
  then show ?thesis unfolding a_def b_def .
qed

lemma round_92: "Math_round (real f * 0.92) = (92 * int f + 50) div 100"
proof -
  have "real f * 0.92 + 1 / 2 = real_of_int (92 * int f + 50) / real_of_int 100" by simp
  then show ?thesis unfolding Math_round_def by (simp only: floor_divide_of_int_eq)
qed

lemma round_08: "Math_round (real f * 0.08) = (8 * int f + 50) div 100"
proof -
  have "real f * 0.08 + 1 / 2 = real_of_int (8 * int f + 50) / real_of_int 100" by simp
  then show ?thesis unfolding Math_round_def by (simp only: floor_divide_of_int_eq)
qed

lemma round_complement_92:
  "Math_round (real f * 0.92) + Math_round (real f * 0.08) = int f"
  by (simp only: round_92 round_08 div_complement)

lemma true_positives_partition:
  "truePositives (confusionMatrix (metrics (fst (analyzeTransactionData rnd k dat)))) +
   falseNegatives (confusionMatrix (metrics (fst (analyzeTransactionData rnd k dat)))) =
   int (fraudulentCount (fst (analyzeTransactionData rnd k dat)))"
proof -
  have "truePositives (confusionMatrix (metrics (fst (analyzeTransactionData rnd k dat)))) =
        Math_round (real (fraudulentCount (fst (analyzeTransactionData rnd k dat))) * 0.92)"
    by (simp add: analyzeTransactionData_def Let_def)
  moreover have "falseNegatives (confusionMatrix (metrics (fst (analyzeTransactionData rnd k dat)))) =
        Math_round (real (fraudulentCount (fst (analyzeTransactionData rnd k dat))) * 0.08)"
    by (simp add: analyzeTransactionData_def Let_def)
  ultimately show ?thesis by (simp only: round_complement_92)
qed

text \<open>
  The genuine half in general: 0.99 and 0.01 of a count both end in one half exactly
  when the count is 50 modulo 100, and then both are rounded up.
\<close>

lemma div_complement_99:
  "(99 * (n::int) + 50) div 100 + (n + 50) div 100 = n + (if n mod 100 = 50 then 1 else 0)"
proof -
  define a where "a = (99 * n + 50) div 100"
  define b where "b = (n + 50) div 100"
  define q where "q = n div 100"
  define r where "r = n mod 100"
  have n: "n = 100 * q + r" and r: "0 \<le> r" "r < 100"
    unfolding q_def r_def by simp_all
  have a1: "100 * a \<le> 99 * n + 50" and a2: "99 * n + 50 < 100 * a + 100"
    unfolding a_def by linarith+
  have b1: "100 * b \<le> n + 50" and b2: "n + 50 < 100 * b + 100"
    unfolding b_def by linarith+
  show ?thesis
  proof (cases "r = 50")
    case True
    then have "n + 50 = 100 * (q + 1)" and "99 * n + 50 = 100 * (99 * q + 50)"
      using n by simp_all
    then have "b = q + 1" and "a = 99 * q + 50"
      unfolding a_def b_def by simp_all
    then show ?thesis
      using True n unfolding a_def b_def r_def by simp
  next
    case False
    have bq: "b = (if r < 50 then q else q + 1)"
      using b1 b2 n r by (auto split: if_splits)
    have aq: "a = (if r \<le> 50 then 99 * q + r else 99 * q + r - 1)"
      using a1 a2 n r by (auto split: if_splits)
    show ?thesis
      using False bq aq n unfolding a_def b_def r_def by (auto split: if_splits)
  qed
qed


lemma round_99: "Math_round (real g * 0.99) = (99 * int g + 50) div 100"
proof -
  have "real g * 0.99 + 1 / 2 = real_of_int (99 * int g + 50) / real_of_int 100" by simp
  then show ?thesis unfolding Math_round_def by (simp only: floor_divide_of_int_eq)
qed

lemma round_01: "Math_round (real g * 0.01) = (int g + 50) div 100"
proof -
  have "real g * 0.01 + 1 / 2 = real_of_int (int g + 50) / real_of_int 100" by simp
  then show ?thesis unfolding Math_round_def by (simp only: floor_divide_of_int_eq)
qed

lemma true_negatives_partition:
  "trueNegatives (confusionMatrix (metrics (fst (analyzeTransactionData rnd k dat)))) +
   falsePositives (confusionMatrix (metrics (fst (analyzeTransactionData rnd k dat)))) =
   int (genuineCount (fst (analyzeTransactionData rnd k dat))) +
   (if int (genuineCount (fst (analyzeTransactionData rnd k dat))) mod 100 = 50 then 1 else 0)"
proof -
  have "trueNegatives (confusionMatrix (metrics (fst (analyzeTransactionData rnd k dat)))) =
        Math_round (real (genuineCount (fst (analyzeTransactionData rnd k dat))) * 0.99)"
    by (simp add: analyzeTransactionData_def Let_def)
  moreover have "falsePositives (confusionMatrix (metrics (fst (analyzeTransactionData rnd k dat)))) =
        Math_round (real (genuineCount (fst (analyzeTransactionData rnd k dat))) * 0.01)"
    by (simp add: analyzeTransactionData_def Let_def)
  ultimately show ?thesis by (simp only: round_99 round_01 div_complement_99)
qed

section \<open>Properties of calculateCorrelations\<close>

lemma placeholder_range:
  assumes "0 \<le> r" "r < 1"
  shows "- 0.5 \<le> placeholder r \<and> placeholder r \<le> 0.9"
proof -
  define y where "y = Math_round ((r * 1.4 - 0.5) * 100)"
  have lo: "-50 \<le> (r * 1.4 - 0.5) * 100" using assms by simp
  have hi: "(r * 1.4 - 0.5) * 100 < 90" using assms by simp
  have "(-50::int) \<le> y"
    unfolding y_def Math_round_def using lo by (simp add: le_floor_iff)
  moreover have "y \<le> (90::int)"
    unfolding y_def Math_round_def using hi by (simp add: floor_le_iff)
  ultimately have "- 0.5 \<le> real_of_int y / 100 \<and> real_of_int y / 100 \<le> 0.9"
    by simp
  then show ?thesis unfolding y_def placeholder_def .
qed

lemma corr_cells_props:
  "length (fst (fold (corr_cell rnd M i) [0..<m] ([], k))) = m \<and>
   (\<forall>j<m. cell_spec rnd M i j (fst (fold (corr_cell rnd M i) [0..<m] ([], k)) ! j))"
proof (induction m)
  case 0
  then show ?case by simp
next
  case (Suc m)
  obtain row k' where s: "fold (corr_cell rnd M i) [0..<m] ([], k) = (row, k')"
    by (cases "fold (corr_cell rnd M i) [0..<m] ([], k)")
  with Suc have len: "length row = m" and old: "\<forall>j<m. cell_spec rnd M i j (row ! j)"
    by simp_all
  have new: "cell_spec rnd M i m (fst (corr_cell rnd M i m (row, k')) ! m)"
    using len by (auto simp: corr_cell_def cell_spec_def nth_append)
  have keep: "\<forall>j<m. fst (corr_cell rnd M i m (row, k')) ! j = row ! j"
    using len by (auto simp: corr_cell_def nth_append)
  have len': "length (fst (corr_cell rnd M i m (row, k'))) = Suc m"
    using len by (auto simp: corr_cell_def)
  show ?case
    using len' new keep old by (auto simp: s less_Suc_eq)
qed

lemma corr_row_length: "length (fst (corr_row rnd M n i k)) = n"
  using corr_cells_props [of rnd M i n k] by (simp add: corr_row_def)

lemma corr_row_cell: "j < n \<Longrightarrow> cell_spec rnd M i j (fst (corr_row rnd M n i k) ! j)"
  using corr_cells_props [of rnd M i n k] by (simp add: corr_row_def)

lemma corr_inv_step:
  assumes inv: "corr_inv rnd n M" and m: "length M = m" and mn: "m < n"
  shows "corr_inv rnd n (M @ [fst (corr_row rnd M n m k)])"
proof -
  let ?row = "fst (corr_row rnd M n m k)"
  let ?M = "M @ [?row]"
  have old: "?M ! i = M ! i" if "i < m" for i
    using that m by (simp add: nth_append)
  have last: "?M ! m = ?row"
    using m by (simp add: nth_append)
  have "length (?M ! i) = n \<and> (i < n \<longrightarrow> ?M ! i ! i = 1) \<and>
        (\<forall>j<i. ?M ! i ! j = ?M ! j ! i) \<and>
        (\<forall>j. i < j \<and> j < n \<longrightarrow> (\<exists>k. ?M ! i ! j = placeholder (rnd k)))"
    if i: "i < Suc m" for i
  proof (cases "i < m")
    case True
    then have "i < length M" using m by simp
    with inv have h: "length (M ! i) = n \<and> (i < n \<longrightarrow> M ! i ! i = 1) \<and>
        (\<forall>j<i. M ! i ! j = M ! j ! i) \<and>
        (\<forall>j. i < j \<and> j < n \<longrightarrow> (\<exists>k. M ! i ! j = placeholder (rnd k)))"
      unfolding corr_inv_def by blast
    have "?M ! j = M ! j" if "j < i" for j
      using that True old by simp
    then show ?thesis using h old [OF True] by simp
  next
    case False
    with i have im: "i = m" by simp
    have a: "length ?row = n" by (rule corr_row_length)
    have b: "m < n \<longrightarrow> ?row ! m = 1"
      using corr_row_cell [of m n rnd M m k] by (simp add: cell_spec_def)
    have c: "\<forall>j<m. ?row ! j = ?M ! j ! m"
    proof (intro allI impI)
      fix j assume j: "j < m"
      then have "j < n" using mn by simp
      then show "?row ! j = ?M ! j ! m"
        using corr_row_cell [of j n rnd M m k] j old [OF j] by (simp add: cell_spec_def)
    qed
    have d: "\<forall>j. m < j \<and> j < n \<longrightarrow> (\<exists>k. ?row ! j = placeholder (rnd k))"
    proof (intro allI impI)
      fix j assume "m < j \<and> j < n"
      then show "\<exists>k. ?row ! j = placeholder (rnd k)"
        using corr_row_cell [of j n rnd M m k] by (simp add: cell_spec_def)
    qed
    show ?thesis using a b c d by (simp add: im last)
  qed
  note each = this
  show ?thesis
    unfolding corr_inv_def
  proof (intro allI impI)
    fix i assume "i < length ?M"
    then have "i < Suc m" using m by simp
    then show "length (?M ! i) = n \<and> (i < n \<longrightarrow> ?M ! i ! i = 1) \<and>
        (\<forall>j<i. ?M ! i ! j = ?M ! j ! i) \<and>
        (\<forall>j. i < j \<and> j < n \<longrightarrow> (\<exists>k. ?M ! i ! j = placeholder (rnd k)))"
      by (rule each)
  qed
qed

lemma corr_rows_inv:
  "m \<le> n \<Longrightarrow>
   length (fst (corr_rows rnd n m k)) = m \<and> corr_inv rnd n (fst (corr_rows rnd n m k))"
proof (induction m)
  case 0
  then show ?case by (simp add: corr_rows_def corr_inv_def)
next
  case (Suc m)
  obtain M k' where s: "corr_rows rnd n m k = (M, k')"
    by (cases "corr_rows rnd n m k")
  with Suc have len: "length M = m" and inv: "corr_inv rnd n M" and mn: "m < n"
    by simp_all
  have step: "fst (corr_rows rnd n (Suc m) k) = M @ [fst (corr_row rnd M n m k')]"
    using s by (simp add: corr_rows_def corr_step_def case_prod_beta)
  show ?case
    using corr_inv_step [OF inv len mn, of k'] len by (simp add: step)
qed

text \<open>
  Claim C7. For every list of feature names and every random source in \<open>[0, 1)\<close>,
  the matrix of calculateCorrelations is square, symmetric, has 1 on its diagonal, and
  every cell off the diagonal lies in \<open>[-0.5, 0.9]\<close>.
\<close>

theorem calculateCorrelations_symmetric:
  assumes "unit_interval rnd"
    and "i < length featureNames" and "j < length featureNames"
  shows "features (fst (calculateCorrelations rnd k featureNames)) = featureNames \<and>
         length (matrix (fst (calculateCorrelations rnd k featureNames))) = length featureNames \<and>
         length (matrix (fst (calculateCorrelations rnd k featureNames)) ! i) =
           length featureNames \<and>
         matrix (fst (calculateCorrelations rnd k featureNames)) ! i ! j =
           matrix (fst (calculateCorrelations rnd k featureNames)) ! j ! i \<and>
         matrix (fst (calculateCorrelations rnd k featureNames)) ! i ! i = 1 \<and>
         (i \<noteq> j \<longrightarrow>
            - 0.5 \<le> matrix (fst (calculateCorrelations rnd k featureNames)) ! i ! j \<and>
            matrix (fst (calculateCorrelations rnd k featureNames)) ! i ! j \<le> 0.9)"
proof -
  let ?n = "length featureNames"
  let ?M = "fst (corr_rows rnd ?n ?n k)"
  have out: "matrix (fst (calculateCorrelations rnd k featureNames)) = ?M"
    by (simp add: calculateCorrelations_def case_prod_beta)
  have names: "features (fst (calculateCorrelations rnd k featureNames)) = featureNames"
    by (simp add: calculateCorrelations_def case_prod_beta)
  have len: "length ?M = ?n" and inv: "corr_inv rnd ?n ?M"
    using corr_rows_inv [of ?n ?n rnd k] by simp_all
  have row: "length (?M ! a) = ?n \<and> ?M ! a ! a = 1 \<and>
        (\<forall>b<a. ?M ! a ! b = ?M ! b ! a) \<and>
        (\<forall>b. a < b \<and> b < ?n \<longrightarrow> (\<exists>k. ?M ! a ! b = placeholder (rnd k)))"
    if "a < ?n" for a
    using inv that len unfolding corr_inv_def by simp
  have upper: "?M ! a ! b = ?M ! b ! a \<and> - 0.5 \<le> ?M ! a ! b \<and> ?M ! a ! b \<le> 0.9"
    if ab: "a < b" and b: "b < ?n" for a b
  proof -
    have a: "a < ?n" using ab b by simp
    obtain k' where "?M ! a ! b = placeholder (rnd k')"
      using row [OF a] ab b by blast
    moreover have "- 0.5 \<le> placeholder (rnd k') \<and> placeholder (rnd k') \<le> 0.9"
      using assms(1) by (intro placeholder_range) (simp_all add: unit_interval_def)
    moreover have "?M ! b ! a = ?M ! a ! b"
      using row [OF b] ab by blast
    ultimately show ?thesis by simp
  qed
  have sym: "?M ! i ! j = ?M ! j ! i"
    using upper [of i j] upper [of j i] assms(2,3) by (cases i j rule: linorder_cases) simp_all
  have rng: "i \<noteq> j \<longrightarrow> - 0.5 \<le> ?M ! i ! j \<and> ?M ! i ! j \<le> 0.9"
    using upper [of i j] upper [of j i] assms(2,3) by (cases i j rule: linorder_cases) simp_all
  show ?thesis
    using names len row [OF assms(2)] sym rng by (simp add: out)
qed

theorem calculateCorrelations_symmetric_witness:
  "unit_interval sample_rnd \<and> (0::nat) < length [''V1'', ''V2'', ''V3''] \<and>
   (2::nat) < length [''V1'', ''V2'', ''V3''] \<and>
   matrix (fst (calculateCorrelations sample_rnd 0 [''V1'', ''V2'', ''V3''])) ! 0 ! 2 =
     matrix (fst (calculateCorrelations sample_rnd 0 [''V1'', ''V2'', ''V3''])) ! 2 ! 0 \<and>
   matrix (fst (calculateCorrelations sample_rnd 0 [''V1'', ''V2'', ''V3''])) ! 0 ! 0 = 1 \<and>
   - 0.5 \<le> matrix (fst (calculateCorrelations sample_rnd 0 [''V1'', ''V2'', ''V3''])) ! 0 ! 2 \<and>
   matrix (fst (calculateCorrelations sample_rnd 0 [''V1'', ''V2'', ''V3''])) ! 0 ! 2 \<le> 0.9"
  using calculateCorrelations_symmetric [OF sample_rnd_unit, of 0 "[''V1'', ''V2'', ''V3'']" 2 0]
    sample_rnd_unit
  by simp

section \<open>Properties of the row parser\<close>

text \<open>The Number value: numerals as fuel, exact values, overflow.\<close>

lemma halvings_numeral:
  "halvings (numeral k) a e = (if a < 2 then e else halvings (pred_numeral k) (a / 2) (e + 1))"
  by (simp add: numeral_eq_Suc)

lemma doublings_numeral:
  "doublings (numeral k) a e = (if 1 \<le> a then e else doublings (pred_numeral k) (a * 2) (e - 1))"
  by (simp add: numeral_eq_Suc)

lemma toNumber_not_NaN: "toNumber x \<noteq> NaN"
  by (simp add: toNumber_def Let_def)

lemma toNumber_exact:
  assumes "binaryExponent \<bar>x\<bar> = e"
    and "roundHalfEven (\<bar>x\<bar> / pow2 (e - 52)) = n"
    and "real_of_int n * pow2 (e - 52) = \<bar>x\<bar>"
    and "\<bar>x\<bar> < pow2 1024"
  shows "toNumber x = Fin x"
proof -
  have "toNumber x = Fin (if 0 \<le> x then \<bar>x\<bar> else - \<bar>x\<bar>)"
    using assms unfolding toNumber_def Let_def by (simp only: not_le [symmetric] if_False)
  then show ?thesis by simp
qed

lemma toNumber_12: "toNumber 12 = Fin 12"
proof (rule toNumber_exact)
  show "binaryExponent \<bar>12\<bar> = 3" by (simp add: binaryExponent_def halvings_numeral)
  show "roundHalfEven (\<bar>12\<bar> / pow2 (3 - 52)) = 6755399441055744"
    by (simp add: pow2_def roundHalfEven_def)
  show "real_of_int 6755399441055744 * pow2 (3 - 52) = \<bar>12\<bar>" by (simp add: pow2_def)
  show "\<bar>12::real\<bar> < pow2 1024" by (simp add: pow2_def)
qed

lemma halvings_overflow:
  "2 ^ n \<le> a \<Longrightarrow> halvings n a e = e + int n"
proof (induction n arbitrary: a e)
  case 0
  then show ?case by simp
next
  case (Suc n)
  have "2 ^ n \<le> a / 2" using Suc.prems by simp
  moreover have "\<not> a < 2"
  proof -
    have "(2::real) \<le> 2 ^ Suc n" by (simp add: self_le_power)
    then show ?thesis using Suc.prems by linarith
  qed
  ultimately show ?case using Suc.IH [of "a / 2" "e + 1"] by simp
qed

lemma roundHalfEven_ge: "real_of_int m \<le> x \<Longrightarrow> m \<le> roundHalfEven x"
proof -
  assume "real_of_int m \<le> x"
  then have "m \<le> \<lfloor>x\<rfloor>" by (simp add: le_floor_iff)
  then show ?thesis by (simp add: roundHalfEven_def)
qed

lemma toNumber_overflow:
  assumes "2 ^ 1024 \<le> x"
  shows "toNumber x = PInf"
proof -
  have pos: "0 < x" using assms by (smt (verit) zero_less_power)
  then have a: "\<bar>x\<bar> = x" by simp
  have one: "1 \<le> x" using assms by (smt (verit) one_le_power)
  have e: "binaryExponent x = 1024"
    using halvings_overflow [of 1024 x 0] assms one by (simp add: binaryExponent_def)
  have ulp: "pow2 (1024 - 52) = 2 ^ 972" by (simp add: pow2_def)
  have "(2::real) ^ 1024 = 2 ^ 52 * 2 ^ 972" by (simp add: power_add [symmetric])
  then have "real_of_int (2 ^ 52) \<le> x / 2 ^ 972"
    using assms by (simp add: pos_le_divide_eq)
  then have "2 ^ 52 \<le> roundHalfEven (x / 2 ^ 972)" by (rule roundHalfEven_ge)
  then have "real_of_int (2 ^ 52) \<le> real_of_int (roundHalfEven (x / 2 ^ 972))"
    by (simp only: of_int_le_iff)
  then have "2 ^ 52 * 2 ^ 972 \<le> real_of_int (roundHalfEven (x / 2 ^ 972)) * 2 ^ 972"
    by simp
  then have big: "pow2 1024 \<le> real_of_int (roundHalfEven (x / 2 ^ 972)) * 2 ^ 972"
    by (simp add: pow2_def power_add [symmetric])
  show ?thesis
    unfolding toNumber_def Let_def a e ulp using big pos by simp
qed


lemma toNumber_1: "toNumber 1 = Fin 1"
proof (rule toNumber_exact)
  show "binaryExponent \<bar>1\<bar> = 0" by (simp add: binaryExponent_def halvings_numeral)
  show "roundHalfEven (\<bar>1\<bar> / pow2 (0 - 52)) = 4503599627370496"
    by (simp add: pow2_def roundHalfEven_def)
  show "real_of_int 4503599627370496 * pow2 (0 - 52) = \<bar>1\<bar>" by (simp add: pow2_def)
  show "\<bar>1::real\<bar> < pow2 1024" by (simp add: pow2_def)
qed

lemmas parseFloat_eval =
  parseFloat_def trimStart_def isWhiteSpace_def startsWith_def unsignedDecimal_def isDigit_def
  digitsValue_def digitValue_def exponentPart_def signedInteger_def scale10_def Let_def
  toNumber_1 toNumber_12

lemmas cell_eval =
  storedCell_def toCell_def stripQuotes_def fieldValue_def endsWith_def substring_def

text \<open>
  Claim C4, as the code has it. When every line of the text is blank after trimming, no
  line is left, the header is read from \<open>undefined\<close>, and parseCSV fails with the
  TypeError of the runtime. It never succeeds on such a text.
\<close>

theorem parseCSV_blank_TypeError:
  assumes "\<forall>line\<in>set (split_on (CHR 0x0A) csvData). trim line = []"
  shows "parseCSV csvData = Inl TypeError"
proof -
  have "nonBlankLines csvData = []"
    using assms by (simp add: nonBlankLines_def filter_empty_conv)
  then show ?thesis by (simp add: parseCSV_def)
qed

theorem parseCSV_blank_TypeError_witness:
  "map trim (split_on (CHR 0x0A) [CHR 0x20, CHR 0x0A, CHR 0x09, CHR 0x0D]) = [[], []] \<and>
   parseCSV [CHR 0x20, CHR 0x0A, CHR 0x09, CHR 0x0D] = Inl TypeError"
proof -
  have h: "\<forall>line\<in>set (split_on (CHR 0x0A) [CHR 0x20, CHR 0x0A, CHR 0x09, CHR 0x0D]). trim line = []"
    by (simp add: trim_def isWhiteSpace_def)
  have m: "map trim (split_on (CHR 0x0A) [CHR 0x20, CHR 0x0A, CHR 0x09, CHR 0x0D]) = [[], []]"
    by (simp add: trim_def isWhiteSpace_def)
  show ?thesis using parseCSV_blank_TypeError [OF h] m by simp
qed

text \<open>
  Claim C4 as stated fails: on the empty text the failure is a TypeError, not a ParseError.
\<close>

theorem parseCSV_ParseError_counterexample:
  "parseCSV [] = Inl TypeError \<and> parseCSV [] \<noteq> Inl ParseError"
  by (simp add: parseCSV_def nonBlankLines_def trim_def)

lemma parseCSV_succeeds:
  "nonBlankLines csvData \<noteq> [] \<Longrightarrow> \<exists>t. parseCSV csvData = Inr t"
  by (cases "nonBlankLines csvData") (simp_all add: parseCSV_def Let_def)

lemma parseCSV_rows:
  assumes "parseCSV csvData = Inr t"
  shows "headers t = map trim (split_on (CHR '','') (hd (nonBlankLines csvData))) \<and>
         data t = map (parseRow (headers t)) (tl (nonBlankLines csvData)) \<and>
         totalRows t = length (data t)"
  using assms by (cases "nonBlankLines csvData") (auto simp: parseCSV_def Let_def)

lemma isDigit_first: "isDigit c \<Longrightarrow>
  \<not> isWhiteSpace c \<and> c \<noteq> CHR ''+'' \<and> c \<noteq> CHR ''-'' \<and> c \<noteq> CHR ''I'' \<and> c \<noteq> CHR ''.'' \<and> c \<noteq> CHR 0x22"
  by (auto simp: isDigit_def isWhiteSpace_def)

lemma takeWhile_digit_Nil: "takeWhile isDigit u = [] \<longleftrightarrow> u = [] \<or> \<not> isDigit (hd u)"
  by (cases u) simp_all

text \<open>When \<open>parseFloat\<close> is not NaN, and what it reads from a run of digits.\<close>

lemma unsignedDecimal_NaN_iff: "unsignedDecimal u \<noteq> NaN \<longleftrightarrow> startsNumeral u"
proof (cases "take 8 u = ''Infinity''")
  case True
  then show ?thesis by (simp add: unsignedDecimal_def startsNumeral_def)
next
  case inf: False
  show ?thesis
  proof (cases "u = [] \<or> \<not> isDigit (hd u)")
    case False
    then have ip: "takeWhile isDigit u \<noteq> []" by (simp add: takeWhile_digit_Nil)
    have "unsignedDecimal u \<noteq> NaN"
      using inf ip by (simp add: unsignedDecimal_def Let_def toNumber_not_NaN)
    moreover have "startsNumeral u" using False by (simp add: startsNumeral_def)
    ultimately show ?thesis by simp
  next
    case True
    then have ip: "takeWhile isDigit u = []" by (simp add: takeWhile_digit_Nil)
    then have r1: "dropWhile isDigit u = u"
      by (metis append_Nil takeWhile_dropWhile_id)
    show ?thesis
    proof (cases "startsWith u (CHR ''.'')")
      case dot: True
      then obtain r2 where u: "u = CHR ''.'' # r2"
        by (cases u) (simp_all add: startsWith_def)
      have d: "\<not> isDigit (CHR ''.'')" by (simp add: isDigit_def)
      have "unsignedDecimal u \<noteq> NaN \<longleftrightarrow> takeWhile isDigit r2 \<noteq> []"
        using inf ip r1 dot u by (simp add: unsignedDecimal_def Let_def toNumber_not_NaN)
      moreover have "takeWhile isDigit r2 \<noteq> [] \<longleftrightarrow> r2 \<noteq> [] \<and> isDigit (hd r2)"
        by (simp add: takeWhile_digit_Nil)
      moreover have "startsNumeral u \<longleftrightarrow> r2 \<noteq> [] \<and> isDigit (hd r2)"
        using inf u d by (cases r2) (simp_all add: startsNumeral_def)
      ultimately show ?thesis by simp
    next
      case nodot: False
      have "unsignedDecimal u = NaN"
        using inf ip r1 nodot by (simp add: unsignedDecimal_def Let_def)
      moreover have "\<not> startsNumeral u"
        using inf True nodot by (cases u) (auto simp: startsNumeral_def startsWith_def)
      ultimately show ?thesis by simp
    qed
  qed
qed

lemma jneg_NaN: "jneg x = NaN \<longleftrightarrow> x = NaN"
  by (cases x) simp_all

lemma parseFloat_NaN_iff: "parseFloat s \<noteq> NaN \<longleftrightarrow> numericPrefix s"
  by (simp add: parseFloat_def numericPrefix_def Let_def jneg_NaN unsignedDecimal_NaN_iff)

lemma exponentPart_none: "endsNumeral rest \<Longrightarrow> exponentPart rest = 0"
  by (cases rest) (auto simp: endsNumeral_def exponentPart_def)

lemma parseFloat_digits:
  assumes ne: "ds \<noteq> []" and dg: "\<forall>c\<in>set ds. isDigit c" and en: "endsNumeral rest"
  shows "parseFloat (ds @ rest) = toNumber (real_of_int (digitsValue ds))"
proof -
  obtain c cs where ds: "ds = c # cs" using ne by (cases ds) simp_all
  have c: "isDigit c" using dg ds by simp
  note f = isDigit_first [OF c]
  have pf: "parseFloat (ds @ rest) = unsignedDecimal (ds @ rest)"
    using f ds by (simp add: parseFloat_def trimStart_def startsWith_def)
  have inf: "take 8 (ds @ rest) \<noteq> ''Infinity''"
    using f ds by (auto simp: take_Cons split: nat.splits)
  have tw: "takeWhile isDigit rest = []" and nd: "\<not> startsWith rest (CHR ''.'')"
    using en by (cases rest; auto simp: endsNumeral_def startsWith_def)+
  have ip: "takeWhile isDigit (ds @ rest) = ds"
    using dg tw by (simp add: takeWhile_append2)
  have r1: "dropWhile isDigit (ds @ rest) = rest"
    using dg tw by (metis ip same_append_eq takeWhile_dropWhile_id)
  show ?thesis
    using inf ne nd exponentPart_none [OF en]
    by (simp add: pf unsignedDecimal_def Let_def ip r1 scale10_def)
qed

lemma stripQuotes_quoted: "stripQuotes (CHR 0x22 # s @ [CHR 0x22]) = s"
  by (simp add: stripQuotes_def startsWith_def endsWith_def substring_def)

lemma stripQuotes_plain:
  "\<not> (startsWith v (CHR 0x22) \<and> endsWith v (CHR 0x22)) \<Longrightarrow> stripQuotes v = v"
  unfolding stripQuotes_def by (rule if_not_P)

lemma stripQuotes_single: "stripQuotes [CHR 0x22] = [CHR 0x22]"
  by (simp add: stripQuotes_def startsWith_def endsWith_def substring_def)

lemma fieldValue_present: "j < length values \<Longrightarrow> fieldValue values j = values ! j"
  by (simp add: fieldValue_def)

text \<open>
  Claim C8, as the code has it. The text that is converted is the field as it stands: the
  empty string for a missing field, the field without its first and last character when
  it has at least two characters and begins and ends with a double quote, and the field
  itself otherwise; nothing is trimmed. A number is stored exactly when \<open>parseFloat\<close>
  of the text is not NaN, which is when the text, after leading white space and one
  optional sign, begins with a digit, with a point followed by a digit, or with
  \<open>Infinity\<close>; the number is \<open>parseFloat\<close> of the text. Otherwise the text
  itself is stored as a string. \<open>parseFloat\<close> reads a prefix: digits followed by
  text that does not continue the numeral give the Number value of the digits.
\<close>

theorem field_conversion:
  "(length values \<le> j \<longrightarrow> storedCell values j = JStr []) \<and>
   (j < length values \<and> values ! j = CHR 0x22 # s @ [CHR 0x22] \<longrightarrow>
      storedCell values j = toCell s) \<and>
   (j < length values \<and> values ! j = [CHR 0x22] \<longrightarrow>
      storedCell values j = JStr [CHR 0x22]) \<and>
   (j < length values \<and>
    \<not> (startsWith (values ! j) (CHR 0x22) \<and> endsWith (values ! j) (CHR 0x22)) \<longrightarrow>
      storedCell values j = toCell (values ! j)) \<and>
   (numericPrefix v \<longrightarrow> parseFloat v \<noteq> NaN \<and> toCell v = JNum (parseFloat v)) \<and>
   (\<not> numericPrefix v \<longrightarrow> parseFloat v = NaN \<and> toCell v = JStr v) \<and>
   (ds \<noteq> [] \<and> (\<forall>c\<in>set ds. isDigit c) \<and> endsNumeral rest \<longrightarrow>
      toCell (ds @ rest) = JNum (toNumber (real_of_int (digitsValue ds))))"
proof (intro conjI impI)
  assume "length values \<le> j"
  then show "storedCell values j = JStr []"
    by (simp add: cell_eval parseFloat_eval)
next
  assume "j < length values \<and> values ! j = CHR 0x22 # s @ [CHR 0x22]"
  then show "storedCell values j = toCell s"
    by (simp add: storedCell_def fieldValue_present stripQuotes_quoted)
next
  assume "j < length values \<and> values ! j = [CHR 0x22]"
  then have "storedCell values j = toCell [CHR 0x22]"
    by (simp add: storedCell_def fieldValue_present stripQuotes_single)
  then show "storedCell values j = JStr [CHR 0x22]"
    by (simp add: toCell_def parseFloat_eval)
next
  assume "j < length values \<and>
    \<not> (startsWith (values ! j) (CHR 0x22) \<and> endsWith (values ! j) (CHR 0x22))"
  then show "storedCell values j = toCell (values ! j)"
    by (simp add: storedCell_def fieldValue_present stripQuotes_plain)
next
  assume "numericPrefix v"
  then show "parseFloat v \<noteq> NaN" by (simp add: parseFloat_NaN_iff)
  then show "toCell v = JNum (parseFloat v)" by (simp add: toCell_def Let_def)
next
  assume "\<not> numericPrefix v"
  then show "parseFloat v = NaN" using parseFloat_NaN_iff [of v] by simp
  then show "toCell v = JStr v" by (simp add: toCell_def Let_def)
next
  assume a: "ds \<noteq> [] \<and> (\<forall>c\<in>set ds. isDigit c) \<and> endsNumeral rest"
  then have "parseFloat (ds @ rest) = toNumber (real_of_int (digitsValue ds))"
    by (intro parseFloat_digits) simp_all
  then show "toCell (ds @ rest) = JNum (toNumber (real_of_int (digitsValue ds)))"
    by (simp add: toCell_def Let_def toNumber_not_NaN)
qed


lemmas prefix_eval =
  numericPrefix_def startsNumeral_def endsNumeral_def trimStart_def isWhiteSpace_def
  startsWith_def endsWith_def isDigit_def digitsValue_def digitValue_def

theorem field_conversion_witness:
  "storedCell [''12abc'', '' x '', CHR 0x22 # ''12'' @ [CHR 0x22]] 0 = JNum (Fin 12) \<and>
   storedCell [''12abc'', '' x '', CHR 0x22 # ''12'' @ [CHR 0x22]] 1 = JStr '' x '' \<and>
   storedCell [''12abc'', '' x '', CHR 0x22 # ''12'' @ [CHR 0x22]] 2 = JNum (Fin 12) \<and>
   storedCell [''12abc'', '' x '', CHR 0x22 # ''12'' @ [CHR 0x22]] 3 = JStr [] \<and>
   numericPrefix ''12abc'' \<and> \<not> numericPrefix '' x '' \<and> endsNumeral ''abc''"
proof -
  let ?V = "[''12abc'', '' x '', CHR 0x22 # ''12'' @ [CHR 0x22]]"
  have p: "numericPrefix ''12abc''" and n: "\<not> numericPrefix '' x ''"
    and e: "endsNumeral ''abc''" and e0: "endsNumeral []"
    by (simp_all add: prefix_eval)
  have d: "digitsValue ''12'' = 12" by (simp add: prefix_eval)
  note f0 = field_conversion [of ?V 0 s v "''12''" "''abc''"]
  have f0a: "storedCell ?V 0 = toCell ''12abc''"
    using f0 by (simp add: prefix_eval)
  have f0b: "toCell ''12abc'' = JNum (toNumber 12)"
    using f0 e by (simp add: prefix_eval)
  have c0: "storedCell ?V 0 = JNum (Fin 12)"
    by (simp only: f0a f0b toNumber_12)
  note f1 = field_conversion [of ?V 1 s "'' x ''" ds rest]
  have f1a: "storedCell ?V 1 = toCell '' x ''"
    using f1 by (simp add: prefix_eval)
  have f1b: "toCell '' x '' = JStr '' x ''"
    using f1 n by blast
  have c1: "storedCell ?V 1 = JStr '' x ''"
    by (simp only: f1a f1b)
  note f2 = field_conversion [of ?V 2 "''12''" v "''12''" "[]"]
  have f2a: "storedCell ?V 2 = toCell ''12''"
    using f2 by simp
  have f2b: "toCell ''12'' = JNum (toNumber 12)"
    using f2 e0 by (simp add: prefix_eval)
  have c2: "storedCell ?V 2 = JNum (Fin 12)"
    by (simp only: f2a f2b toNumber_12)
  have c3: "storedCell ?V 3 = JStr []"
    using field_conversion [of ?V 3 s v ds rest] by simp
  show ?thesis using c0 c1 c2 c3 p n e by simp
qed

text \<open>
  Claim C8 as stated fails: in the line \<open>12abc, x\<close> with a blank on either side of
  \<open>x\<close>, the first field is stored as the number 12 and the second as the string
  with its blanks.
\<close>

theorem numeric_prefix_counterexample:
  "storedCell (split_on (CHR '','') ''12abc, x '') 0 = JNum (Fin 12) \<and>
   storedCell (split_on (CHR '','') ''12abc, x '') 0 \<noteq> JStr ''12abc'' \<and>
   storedCell (split_on (CHR '','') ''12abc, x '') 1 = JStr '' x '' \<and>
   storedCell (split_on (CHR '','') ''12abc, x '') 1 \<noteq> JStr ''x''"
  by (simp add: cell_eval parseFloat_eval)

text \<open>A numeral beyond the range of the doubles is stored as \<open>Infinity\<close>.\<close>

lemma overflow_stored_as_Infinity: "storedCell [''1e400''] 0 = JNum PInf"
proof -
  have "(2::real) ^ 1024 \<le> 10 ^ 400" by simp
  then have "toNumber (10 ^ 400) = PInf" by (rule toNumber_overflow)
  then show ?thesis
    by (simp add: cell_eval parseFloat_def trimStart_def isWhiteSpace_def startsWith_def
        unsignedDecimal_def isDigit_def digitsValue_def digitValue_def exponentPart_def
        signedInteger_def scale10_def Let_def)
qed

lemma bindFields_0: "bindFields hs values 0 = Map.empty"
  by (simp add: bindFields_def)

lemma bindFields_Suc:
  "bindFields hs values (Suc m) =
     setProperty (bindFields hs values m) (hs ! m) (storedCell values m)"
  by (simp add: bindFields_def)

lemma bindFields_dom:
  "m \<le> length hs \<Longrightarrow> dom (bindFields hs values m) = set (take m hs) - {''__proto__''}"
proof (induction m)
  case 0
  then show ?case by (simp add: bindFields_def)
next
  case (Suc m)
  then have m: "m < length hs" by simp
  have "set (take (Suc m) hs) = insert (hs ! m) (set (take m hs))"
    using m by (simp add: take_Suc_conv_app_nth)
  then show ?case
    using Suc by (auto simp: bindFields_Suc setProperty_def)
qed

lemma bindFields_lookup:
  assumes "m \<le> length hs" and "j < m" and "hs ! j \<noteq> ''__proto__''"
    and "\<forall>j'. j < j' \<and> j' < m \<longrightarrow> hs ! j' \<noteq> hs ! j"
  shows "bindFields hs values m (hs ! j) = Some (storedCell values j)"
  using assms
proof (induction m)
  case 0
  then show ?case by simp
next
  case (Suc m)
  show ?case
  proof (cases "j = m")
    case True
    then show ?thesis using Suc.prems(3) by (simp add: bindFields_Suc setProperty_def)
  next
    case False
    then have jm: "j < m" using Suc.prems(2) by simp
    then have ne: "hs ! m \<noteq> hs ! j" using Suc.prems(4) by simp
    have "bindFields hs values m (hs ! j) = Some (storedCell values j)"
      using Suc.IH Suc.prems jm by simp
    then show ?thesis using ne by (simp add: bindFields_Suc setProperty_def)
  qed
qed

lemma fieldValue_take:
  assumes "take n xs = take n ys" and "j < n"
  shows "fieldValue xs j = fieldValue ys j"
proof -
  have len: "min n (length xs) = min n (length ys)"
    using assms(1) by (metis length_take min.commute)
  have iff: "j < length xs \<longleftrightarrow> j < length ys"
    using len assms(2) by linarith
  have nth: "xs ! j = ys ! j" if "j < length xs"
    using assms that by (metis nth_take)
  show ?thesis
  proof (cases "j < length xs")
    case True
    then show ?thesis using iff nth by (simp add: fieldValue_def)
  next
    case False
    then show ?thesis using iff by (simp add: fieldValue_def)
  qed
qed

lemma bindFields_take:
  assumes "take n xs = take n ys"
  shows "m \<le> n \<Longrightarrow> bindFields hs xs m = bindFields hs ys m"
proof (induction m)
  case 0
  then show ?case by (simp add: bindFields_def)
next
  case (Suc m)
  then have "fieldValue xs m = fieldValue ys m"
    using fieldValue_take [OF assms, of m] by simp
  then show ?case using Suc by (simp add: bindFields_Suc storedCell_def)
qed

lemma storedCell_missing: "length values \<le> j \<Longrightarrow> storedCell values j = JStr []"
  by (simp add: cell_eval parseFloat_eval)

text \<open>
  Claim C9, as the code has it. Whenever the text has a header line, parseCSV succeeds,
  whatever the number of fields of a data line is. A row is an object keyed by header
  name: it binds the header names other than \<open>__proto__\<close> and nothing else, a name
  at its last position in the header gets the cell of that position, which is the empty
  string when the line has no field there, and the fields past the number of headers are
  never read, so two lines that agree on their first \<open>len(headers)\<close> fields give the
  same row. With distinct header names, none of them \<open>__proto__\<close>, a row holds
  exactly \<open>len(headers)\<close> values.
\<close>

theorem parseCSV_row_fields:
  assumes "nonBlankLines csvData = first # rest" and "i < length rest"
  shows "\<exists>t. parseCSV csvData = Inr t \<and>
           headers t = map trim (split_on (CHR '','') first) \<and>
           totalRows t = length rest \<and> length (data t) = length rest \<and>
           data t ! i = parseRow (headers t) (rest ! i) \<and>
           dom (data t ! i) = set (headers t) - {''__proto__''} \<and>
           (distinct (headers t) \<and> ''__proto__'' \<notin> set (headers t) \<longrightarrow>
              card (dom (data t ! i)) = length (headers t)) \<and>
           (\<forall>j<length (headers t).
              headers t ! j \<noteq> ''__proto__'' \<and>
              (\<forall>j'. j < j' \<and> j' < length (headers t) \<longrightarrow> headers t ! j' \<noteq> headers t ! j) \<longrightarrow>
              (data t ! i) (headers t ! j) =
                Some (storedCell (split_on (CHR '','') (rest ! i)) j) \<and>
              (length (split_on (CHR '','') (rest ! i)) \<le> j \<longrightarrow>
                (data t ! i) (headers t ! j) = Some (JStr []))) \<and>
           (\<forall>line'. take (length (headers t)) (split_on (CHR '','') line') =
                     take (length (headers t)) (split_on (CHR '','') (rest ! i)) \<longrightarrow>
                   parseRow (headers t) line' = data t ! i)"
proof -
  define hs where "hs = map trim (split_on (CHR '','') first)"
  define t where "t = \<lparr>headers = hs, data = map (parseRow hs) rest, totalRows = length rest\<rparr>"
  let ?fields = "split_on (CHR '','') (rest ! i)"
  have p: "parseCSV csvData = Inr t"
    using assms(1) by (simp add: parseCSV_def Let_def t_def hs_def)
  have h: "headers t = hs" and r: "data t ! i = parseRow hs (rest ! i)"
    and n: "totalRows t = length rest" "length (data t) = length rest"
    using assms(2) by (simp_all add: t_def)
  have d: "dom (parseRow hs (rest ! i)) = set hs - {''__proto__''}"
    using bindFields_dom [of "length hs" hs ?fields] by (simp add: parseRow_def)
  have c: "card (dom (parseRow hs (rest ! i))) = length hs"
    if "distinct hs" and "''__proto__'' \<notin> set hs"
    using that d by (simp add: distinct_card)
  have l: "parseRow hs (rest ! i) (hs ! j) = Some (storedCell ?fields j)"
    if "j < length hs" and "hs ! j \<noteq> ''__proto__''"
      and "\<forall>j'. j < j' \<and> j' < length hs \<longrightarrow> hs ! j' \<noteq> hs ! j" for j
    using bindFields_lookup [of "length hs" hs j ?fields] that by (simp add: parseRow_def)
  have e: "parseRow hs line' = parseRow hs (rest ! i)"
    if "take (length hs) (split_on (CHR '','') line') = take (length hs) ?fields" for line'
    using bindFields_take [OF that, of "length hs" hs] by (simp add: parseRow_def)
  have m: "length ?fields \<le> j \<longrightarrow> storedCell ?fields j = JStr []" for j
    by (intro impI) (rule storedCell_missing)
  show ?thesis
  proof (intro exI [of _ t] conjI)
    show "parseCSV csvData = Inr t" by (rule p)
    show "headers t = map trim (split_on (CHR '','') first)" by (simp add: h hs_def)
    show "totalRows t = length rest" by (rule n)
    show "length (data t) = length rest" by (rule n)
    show "data t ! i = parseRow (headers t) (rest ! i)" by (simp only: h r)
    show "dom (data t ! i) = set (headers t) - {''__proto__''}" by (simp only: h r d)
    show "distinct (headers t) \<and> ''__proto__'' \<notin> set (headers t) \<longrightarrow>
            card (dom (data t ! i)) = length (headers t)"
      unfolding h r
    proof (intro impI)
      assume a: "distinct hs \<and> ''__proto__'' \<notin> set hs"
      have a1: "distinct hs" using a by (rule conjunct1)
      have a2: "''__proto__'' \<notin> set hs" using a by (rule conjunct2)
      show "card (dom (parseRow hs (rest ! i))) = length hs" using a1 a2 by (rule c)
    qed
    show "\<forall>j<length (headers t).
            headers t ! j \<noteq> ''__proto__'' \<and>
            (\<forall>j'. j < j' \<and> j' < length (headers t) \<longrightarrow> headers t ! j' \<noteq> headers t ! j) \<longrightarrow>
            (data t ! i) (headers t ! j) = Some (storedCell ?fields j) \<and>
            (length ?fields \<le> j \<longrightarrow> (data t ! i) (headers t ! j) = Some (JStr []))"
      unfolding h r
    proof (intro allI impI)
      fix j
      assume j: "j < length hs"
        and k: "hs ! j \<noteq> ''__proto__'' \<and>
                (\<forall>j'. j < j' \<and> j' < length hs \<longrightarrow> hs ! j' \<noteq> hs ! j)"
      have k1: "hs ! j \<noteq> ''__proto__''" using k by (rule conjunct1)
      have k2: "\<forall>j'. j < j' \<and> j' < length hs \<longrightarrow> hs ! j' \<noteq> hs ! j" using k by (rule conjunct2)
      have v: "parseRow hs (rest ! i) (hs ! j) = Some (storedCell ?fields j)"
        using j k1 k2 by (rule l)
      show "parseRow hs (rest ! i) (hs ! j) = Some (storedCell ?fields j) \<and>
            (length ?fields \<le> j \<longrightarrow> parseRow hs (rest ! i) (hs ! j) = Some (JStr []))"
        using v m [of j] by simp
    qed
    show "\<forall>line'. take (length (headers t)) (split_on (CHR '','') line') =
                   take (length (headers t)) ?fields \<longrightarrow>
                 parseRow (headers t) line' = data t ! i"
      unfolding h r
    proof (intro allI impI)
      fix line'
      assume "take (length hs) (split_on (CHR '','') line') = take (length hs) ?fields"
      then show "parseRow hs line' = parseRow hs (rest ! i)" by (rule e)
    qed
  qed
qed


theorem parseCSV_row_fields_witness:
  "nonBlankLines sample_csv = ''a,b,c'' # [''1'', ''1,2,3,4''] \<and>
   (0::nat) < length [''1'', ''1,2,3,4''] \<and>
   (\<exists>t. parseCSV sample_csv = Inr t \<and> headers t = [''a'', ''b'', ''c''] \<and>
        totalRows t = 2 \<and>
        card (dom (data t ! 0)) = 3 \<and>
        (data t ! 0) ''a'' = Some (JNum (Fin 1)) \<and>
        (data t ! 0) ''b'' = Some (JStr []) \<and>
        (data t ! 0) ''c'' = Some (JStr []))"
proof -
  have h1: "nonBlankLines sample_csv = ''a,b,c'' # [''1'', ''1,2,3,4'']"
    by (simp add: sample_csv_def nonBlankLines_def trim_def isWhiteSpace_def)
  have h2: "(0::nat) < length [''1'', ''1,2,3,4'']" by simp
  obtain t where p: "parseCSV sample_csv = Inr t"
    and hs: "headers t = map trim (split_on (CHR '','') ''a,b,c'')"
    and n: "totalRows t = length [''1'', ''1,2,3,4'']"
    and c: "distinct (headers t) \<and> ''__proto__'' \<notin> set (headers t) \<longrightarrow>
              card (dom (data t ! 0)) = length (headers t)"
    and f: "\<forall>j<length (headers t).
              headers t ! j \<noteq> ''__proto__'' \<and>
              (\<forall>j'. j < j' \<and> j' < length (headers t) \<longrightarrow> headers t ! j' \<noteq> headers t ! j) \<longrightarrow>
              (data t ! 0) (headers t ! j) =
                Some (storedCell (split_on (CHR '','') ([''1'', ''1,2,3,4''] ! 0)) j) \<and>
              (length (split_on (CHR '','') ([''1'', ''1,2,3,4''] ! 0)) \<le> j \<longrightarrow>
                (data t ! 0) (headers t ! j) = Some (JStr []))"
    using parseCSV_row_fields [OF h1 h2] by blast
  have hs': "headers t = [''a'', ''b'', ''c'']"
    by (simp add: hs trim_def isWhiteSpace_def)
  have card: "card (dom (data t ! 0)) = 3"
    using c by (simp add: hs')
  have later: "\<forall>j'. j < j' \<and> j' < 3 \<longrightarrow> [''a'', ''b'', ''c''] ! j' \<noteq> [''a'', ''b'', ''c''] ! j"
    if "j < 3" for j :: nat
  proof (intro allI impI)
    fix j' :: nat assume "j < j' \<and> j' < 3"
    then have "(j = 0 \<and> j' = 1) \<or> (j = 0 \<and> j' = 2) \<or> (j = 1 \<and> j' = 2)" by linarith
    then show "[''a'', ''b'', ''c''] ! j' \<noteq> [''a'', ''b'', ''c''] ! j" by auto
  qed
  have a: "(data t ! 0) ''a'' = Some (JNum (Fin 1))"
    using f [unfolded hs', rule_format, of 0] later [of 0]
    by (simp add: cell_eval parseFloat_eval)
  have b: "(data t ! 0) ''b'' = Some (JStr [])"
    using f [unfolded hs', rule_format, of 1] later [of 1]
    by (simp add: cell_eval parseFloat_eval)
  have c': "(data t ! 0) ''c'' = Some (JStr [])"
    using f [unfolded hs', rule_format, of 2] later [of 2]
    by (simp add: cell_eval parseFloat_eval)
  show ?thesis
    using h1 p hs' n card a b c' by simp
qed

text \<open>
  Claim C9 as stated fails: with the header \<open>a,a\<close> or \<open>x,__proto__\<close> the row of
  the line \<open>1,12\<close> binds one value for two headers.
\<close>

theorem repeated_header_counterexample:
  "parseCSV (''a,a'' @ [CHR 0x0A] @ ''1,12'') =
     Inr \<lparr>headers = [''a'', ''a''], data = [[''a'' \<mapsto> JNum (Fin 12)]], totalRows = 1\<rparr> \<and>
   parseCSV (''x,__proto__'' @ [CHR 0x0A] @ ''1,12'') =
     Inr \<lparr>headers = [''x'', ''__proto__''], data = [[''x'' \<mapsto> JNum (Fin 1)]],
          totalRows = 1\<rparr> \<and>
   card (dom [''a'' \<mapsto> JNum (Fin 12)]) = 1 \<and> card (dom [''x'' \<mapsto> JNum (Fin 1)]) = 1 \<and>
   length [''a'', ''a''] = 2 \<and> length [''x'', ''__proto__''] = 2"
  by (simp add: parseCSV_def nonBlankLines_def trim_def parseRow_def numeral_2_eq_2
      bindFields_0 bindFields_Suc setProperty_def cell_eval parseFloat_eval)

end
